theory Spec2Isabelle
  imports Complex_Main
begin

section \<open>Python values used by the retrieval core\<close>

text \<open>
  Exceptions the modelled code can raise. \<open>IndexError\<close> comes from \<open>text[i]\<close> out of
  range; \<open>AssertionError\<close> is what the FAISS Python wrapper raises when the width of an
  array differs from the index's dimension (or when \<open>k\<close> is not positive).
\<close>

datatype py_error = IndexError | AssertionError

text \<open>\<open>len(xs)\<close> as a Python integer.\<close>

definition len :: "'a list \<Rightarrow> int" where
  "len xs = int (length xs)"

text \<open>
  \<open>xs[i]\<close>: a negative index counts from the end; outside \<open>-len(xs) \<le> i < len(xs)\<close> Python
  raises IndexError.
\<close>

definition py_getitem :: "'a list \<Rightarrow> int \<Rightarrow> py_error + 'a" where
  "py_getitem xs i =
     (if 0 \<le> i \<and> i < len xs then Inr (xs ! nat i)
      else if - len xs \<le> i \<and> i < 0 then Inr (xs ! nat (len xs + i))
      else Inl IndexError)"

text \<open>
  A slice bound as Python normalises it: a negative bound has the length added, and the
  result is clamped into \<open>0 .. len(xs)\<close>.
\<close>

definition slice_bound :: "int \<Rightarrow> int \<Rightarrow> nat" where
  "slice_bound n i = (if i < 0 then nat (max (i + n) 0) else nat (min i n))"

text \<open>\<open>xs[start:end]\<close>; never raises, and is empty when the bounds cross.\<close>

definition py_slice :: "'a list \<Rightarrow> int \<Rightarrow> int \<Rightarrow> 'a list" where
  "py_slice xs start end =
     (let s = slice_bound (len xs) start; e = slice_bound (len xs) end
      in take (e - s) (drop s xs))"

text \<open>\<open>range(a, b, -1)\<close>: \<open>a, a - 1, ..., b + 1\<close>.\<close>

definition range_down :: "int \<Rightarrow> int \<Rightarrow> int list" where
  "range_down a b = rev [b + 1 .. a]"

text \<open>
  The characters \<open>str.strip()\<close> removes, for the code points a \<open>char\<close> can hold:
  tab, line feed, vertical tab, form feed, carriage return, the four separators
  \<open>0x1C .. 0x1F\<close>, space, NEL and the no-break space.
\<close>

definition is_space :: "char \<Rightarrow> bool" where
  "is_space c = (of_char c \<in> {9, 10, 11, 12, 13, 28, 29, 30, 31, 32, 133, 160 :: nat})"

definition strip :: "string \<Rightarrow> string" where
  "strip s = rev (dropWhile is_space (rev (dropWhile is_space s)))"

section \<open>Chunker: \<open>EmbeddingService.chunk_text\<close>\<close>

text \<open>
  The inner \<open>for i in range(end, max(start + chunk_size // 2, end - 100), -1)\<close> loop:
  the first index whose character is one of \<open>.!?\<close> moves the cut just after it and
  leaves the loop; with no such index the cut stays where it was. Reading \<open>text[i]\<close>
  can raise.
\<close>

fun scan_back :: "string \<Rightarrow> int list \<Rightarrow> int \<Rightarrow> py_error + int" where
  "scan_back text [] end = Inr end"
| "scan_back text (i # is) end =
     (case py_getitem text i of
        Inl e \<Rightarrow> Inl e
      | Inr c \<Rightarrow> if c \<in> set ''.!?'' then Inr (i + 1) else scan_back text is end)"

text \<open>The cut of one window: \<open>end = start + chunk_size\<close>, moved back to a sentence end.\<close>

definition find_end :: "string \<Rightarrow> int \<Rightarrow> int \<Rightarrow> py_error + int" where
  "find_end text start chunk_size =
     (let end = start + chunk_size
      in if end < len text
         then scan_back text (range_down end (max (start + chunk_size div 2) (end - 100))) end
         else Inr end)"

text \<open>
  The \<open>while start < len(text)\<close> loop. \<open>None\<close> is a run that never leaves the loop,
  \<open>Some (Inl e)\<close> a raised exception, \<open>Some (Inr chunks)\<close> the returned list.
\<close>

partial_function (option) chunk_loop ::
  "string \<Rightarrow> int \<Rightarrow> int \<Rightarrow> int \<Rightarrow> string list \<Rightarrow> (py_error + string list) option" where
  "chunk_loop text chunk_size overlap start chunks =
     (if start < len text then
        (case find_end text start chunk_size of
           Inl e \<Rightarrow> Some (Inl e)
         | Inr end \<Rightarrow>
             (if end - overlap \<ge> len text
              then Some (Inr (if strip (py_slice text start end) \<noteq> []
                              then chunks @ [strip (py_slice text start end)] else chunks))
              else chunk_loop text chunk_size overlap (end - overlap)
                     (if strip (py_slice text start end) \<noteq> []
                      then chunks @ [strip (py_slice text start end)] else chunks)))
      else Some (Inr chunks))"

declare chunk_loop.simps [code]

definition chunk_text :: "string \<Rightarrow> int \<Rightarrow> int \<Rightarrow> (py_error + string list) option" where
  "chunk_text text chunk_size overlap =
     (if len text \<le> chunk_size then Some (Inr [text])
      else chunk_loop text chunk_size overlap 0 [])"

section \<open>Vector index: \<open>VectorStore\<close> over a FAISS \<open>IndexFlatL2\<close>\<close>

text \<open>
  A stored chunk is a Python dict; the keys the modelled code reads (\<open>content\<close>,
  \<open>title\<close>, \<open>url\<close>) hold strings. A float32 value is modelled by the real number it
  stands for.
\<close>

type_synonym document = "string \<rightharpoonup> string"

type_synonym vector = "real list"

text \<open>A two-dimensional NumPy array of shape \<open>(len(rows), ncols)\<close>.\<close>

record ndarray =
  ncols :: nat
  rows :: "vector list"

text \<open>
  Modelled from the spec: the exact L2 index \<open>faiss.IndexFlatL2\<close>, its \<open>add\<close> and its
  \<open>search\<close> are library code that the repository calls and does not contain. Following
  section 4.2 of the spec, the index keeps its vectors in insertion order, \<open>add\<close> refuses
  a batch whose width is not the index's dimension, and \<open>search\<close> scans every stored
  vector and ranks by squared Euclidean distance, earlier rows first on a tie. The
  distance is computed by the library in float32, in a summation order of its own: that
  routine is the parameter \<open>l2sqr\<close>, which gives \<open>None\<close> when the result is not a finite
  number. As the library documents, only a distance below the largest float32 enters
  the answer, and an answer with fewer than \<open>k\<close> entries is padded with label \<open>-1\<close> and
  the largest float32.
\<close>

record IndexFlatL2 =
  ix_d :: nat
  ix_xb :: "vector list"

definition IndexFlatL2_new :: "nat \<Rightarrow> IndexFlatL2" where
  "IndexFlatL2_new n = \<lparr>ix_d = n, ix_xb = []\<rparr>"

definition ntotal :: "IndexFlatL2 \<Rightarrow> nat" where
  "ntotal ix = length (ix_xb ix)"

definition index_add :: "IndexFlatL2 \<Rightarrow> ndarray \<Rightarrow> py_error + IndexFlatL2" where
  "index_add ix x =
     (if ncols x \<noteq> ix_d ix then Inl AssertionError
      else Inr (ix\<lparr>ix_xb := ix_xb ix @ rows x\<rparr>))"

definition FLT_MAX :: real where
  "FLT_MAX = 340282346638528859811704183484516925440"

definition index_search ::
  "(vector \<Rightarrow> vector \<Rightarrow> real option) \<Rightarrow> IndexFlatL2 \<Rightarrow> vector \<Rightarrow> nat \<Rightarrow> (real \<times> int) list" where
  "index_search l2sqr ix q k =
     (let scored = concat (map (\<lambda>(i, v). case l2sqr q v of
                                   None \<Rightarrow> []
                                 | Some dv \<Rightarrow> if dv < FLT_MAX then [(dv, int i)] else [])
                             (enumerate 0 (ix_xb ix)));
          ranked = sort_key fst scored
      in take k ranked @ replicate (k - length ranked) (FLT_MAX, - 1))"

text \<open>The fields of a \<open>VectorStore\<close> object; \<open>__init__\<close> and \<open>clear\<close> give the empty one.\<close>

record VectorStore =
  index :: "IndexFlatL2 option"
  documents :: "document list"
  dimension :: "nat option"

definition VectorStore_init :: VectorStore where
  "VectorStore_init = \<lparr>index = None, documents = [], dimension = None\<rparr>"

text \<open>
  \<open>create_index\<close>: an empty batch is refused before anything is assigned. Otherwise
  the fields are assigned in the source's order, so an exception from \<open>index.add\<close>,
  caught by the handler, would leave the dimension and a fresh index behind. The
  boolean is the method's return value.
\<close>

definition create_index :: "VectorStore \<Rightarrow> ndarray \<Rightarrow> document list \<Rightarrow> bool \<times> VectorStore" where
  "create_index s embeddings docs =
     (if len (rows embeddings) = 0 then (False, s)
      else
        (let s1 = s\<lparr>dimension := Some (ncols embeddings)\<rparr>;
             s2 = s1\<lparr>index := Some (IndexFlatL2_new (ncols embeddings))\<rparr>
         in case index_add (IndexFlatL2_new (ncols embeddings)) embeddings of
              Inl e \<Rightarrow> (False, s2)
            | Inr ix \<Rightarrow> (True, s2\<lparr>index := Some ix, documents := docs\<rparr>)))"

text \<open>
  \<open>add_documents\<close>: without an index it is \<open>create_index\<close>; with one, the vectors go to
  the index and the chunks to the list. Neither path compares the two counts.
\<close>

definition add_documents :: "VectorStore \<Rightarrow> ndarray \<Rightarrow> document list \<Rightarrow> bool \<times> VectorStore" where
  "add_documents s embeddings docs =
     (case index s of
        None \<Rightarrow> create_index s embeddings docs
      | Some ix \<Rightarrow>
          (case index_add ix embeddings of
             Inl e \<Rightarrow> (False, s)
           | Inr ix' \<Rightarrow> (True, s\<lparr>index := Some ix', documents := documents s @ docs\<rparr>)))"

text \<open>
  NumPy's float32 arithmetic gives the float32 nearest to the exact result, a tie going
  to the neighbour whose last bit is even. \<open>round_half_even\<close> is that rounding to an
  integer; \<open>f32_exponent\<close> is the binary exponent of the float32 format for a real, from
  \<open>-126\<close> (where the subnormal numbers lie too) to \<open>127\<close>; \<open>f32_ulp\<close> is the spacing of the
  float32 numbers at that exponent, with 24 significant bits. A result of \<open>f32_round\<close>
  with magnitude \<open>2 ^ 128\<close> or more stands for an infinity.
\<close>

definition round_half_even :: "real \<Rightarrow> int" where
  "round_half_even x =
     (if x - of_int \<lfloor>x\<rfloor> < 1 / 2 then \<lfloor>x\<rfloor>
      else if 1 / 2 < x - of_int \<lfloor>x\<rfloor> then \<lfloor>x\<rfloor> + 1
      else if even \<lfloor>x\<rfloor> then \<lfloor>x\<rfloor> else \<lfloor>x\<rfloor> + 1)"

function f32_exponent_from :: "real \<Rightarrow> int \<Rightarrow> int" where
  "f32_exponent_from x e =
     (if e < 127 \<and> 2 powi (e + 1) \<le> x then f32_exponent_from x (e + 1) else e)"
  by pat_completeness auto
termination
  by (relation "measure (\<lambda>(x, e). nat (127 - e))") auto

declare f32_exponent_from.simps [simp del]

definition f32_exponent :: "real \<Rightarrow> int" where
  "f32_exponent x = f32_exponent_from \<bar>x\<bar> (- 126)"

definition f32_ulp :: "real \<Rightarrow> real" where
  "f32_ulp x = 2 powi (f32_exponent x - 23)"

definition f32_round :: "real \<Rightarrow> real" where
  "f32_round x = of_int (round_half_even (x / f32_ulp x)) * f32_ulp x"

text \<open>
  \<open>similarity = 1 / (1 + distance)\<close>, where \<open>distance\<close> is a float32 scalar of the array
  FAISS returned. NumPy 2 keeps the float32 type when the other operand is the Python
  integer 1, so the sum is rounded to float32 and so is the quotient. For a distance
  from 0 to the largest float32 the sum is at least 1 and stays finite.
\<close>

definition similarity :: "real \<Rightarrow> real" where
  "similarity distance = f32_round (1 / f32_round (1 + distance))"

text \<open>
  The loop over \<open>zip(distances[0], indices[0])\<close>: a label below \<open>len(documents)\<close> is
  looked up with Python indexing (so \<open>-1\<close> is the last chunk), any other is skipped.
\<close>

fun collect_results :: "document list \<Rightarrow> (real \<times> int) list \<Rightarrow> py_error + (document \<times> real) list" where
  "collect_results docs [] = Inr []"
| "collect_results docs ((distance, idx) # rest) =
     (if idx < len docs then
        (case py_getitem docs idx of
           Inl e \<Rightarrow> Inl e
         | Inr doc \<Rightarrow>
             (case collect_results docs rest of
                Inl e \<Rightarrow> Inl e
              | Inr results \<Rightarrow> Inr ((doc, similarity distance) # results)))
      else collect_results docs rest)"

text \<open>
  The body of \<open>search\<close>'s \<open>try\<close> block. The guard for an empty store is an ordinary
  \<open>return []\<close> (after \<open>st.warning\<close>); the FAISS wrapper asserts the query's width and
  \<open>k > 0\<close>.
\<close>

definition search_try ::
  "(vector \<Rightarrow> vector \<Rightarrow> real option) \<Rightarrow> VectorStore \<Rightarrow> vector \<Rightarrow> int
     \<Rightarrow> py_error + (document \<times> real) list" where
  "search_try l2sqr s query_embedding top_k =
     (case index s of
        None \<Rightarrow> Inr []
      | Some ix \<Rightarrow>
          if len (documents s) = 0 then Inr []
          else if length query_embedding \<noteq> ix_d ix then Inl AssertionError
          else if min top_k (len (documents s)) \<le> 0 then Inl AssertionError
          else collect_results (documents s)
                 (index_search l2sqr ix query_embedding (nat (min top_k (len (documents s))))))"

text \<open>\<open>search\<close>: the handler turns every exception into the empty list.\<close>

definition search ::
  "(vector \<Rightarrow> vector \<Rightarrow> real option) \<Rightarrow> VectorStore \<Rightarrow> vector \<Rightarrow> int
     \<Rightarrow> (document \<times> real) list" where
  "search l2sqr s query_embedding top_k =
     (case search_try l2sqr s query_embedding top_k of Inl e \<Rightarrow> [] | Inr results \<Rightarrow> results)"

record stats =
  num_documents :: nat
  stats_dimension :: "nat option"
  has_index :: bool
  index_size :: nat

definition get_stats :: "VectorStore \<Rightarrow> stats" where
  "get_stats s =
     \<lparr>num_documents = length (documents s),
      stats_dimension = dimension s,
      has_index = (index s \<noteq> None),
      index_size = (case index s of None \<Rightarrow> 0 | Some ix \<Rightarrow> ntotal ix)\<rparr>"

definition clear :: "VectorStore \<Rightarrow> VectorStore" where
  "clear s = s\<lparr>index := None, documents := [], dimension := None\<rparr>"

text \<open>
  The snapshot kept under the key \<open>vector_store_data\<close> of the session state.
  \<open>faiss.write_index\<close> and \<open>faiss.read_index\<close> are library code: they are parameters
  here, \<open>write_index\<close> giving the bytes of an index and \<open>read_index\<close> giving \<open>None\<close>
  where the library raises.
\<close>

record 'b vector_store_data =
  index_bytes :: 'b
  data_documents :: "document list"
  data_dimension :: "nat option"

type_synonym 'b session_state = "string \<rightharpoonup> 'b vector_store_data"

definition save_to_session_state ::
  "(IndexFlatL2 \<Rightarrow> 'b) \<Rightarrow> VectorStore \<Rightarrow> 'b session_state \<Rightarrow> 'b session_state" where
  "save_to_session_state write_index s session =
     (case index s of
        None \<Rightarrow> session
      | Some ix \<Rightarrow>
          session(''vector_store_data'' \<mapsto>
            \<lparr>index_bytes = write_index ix,
             data_documents = documents s,
             data_dimension = dimension s\<rparr>))"

definition load_from_session_state ::
  "('b \<Rightarrow> IndexFlatL2 option) \<Rightarrow> VectorStore \<Rightarrow> 'b session_state \<Rightarrow> bool \<times> VectorStore" where
  "load_from_session_state read_index s session =
     (case session ''vector_store_data'' of
        None \<Rightarrow> (False, s)
      | Some data \<Rightarrow>
          (case read_index (index_bytes data) of
             None \<Rightarrow> (False, s)
           | Some ix \<Rightarrow>
               (True, s\<lparr>index := Some ix,
                        documents := data_documents data,
                        dimension := data_dimension data\<rparr>)))"

section \<open>Retrieval assembler: the context loop of \<open>answer_question_with_context\<close>\<close>

text \<open>\<open>doc.get(key, default)\<close>.\<close>

definition dict_get :: "document \<Rightarrow> string \<Rightarrow> string \<Rightarrow> string" where
  "dict_get doc key dflt = (case doc key of None \<Rightarrow> dflt | Some v \<Rightarrow> v)"

text \<open>
  The text of one chunk: \<open>Source: {title}\<close>, then \<open> ({url})\<close> only when the url is
  not empty, then a line break, \<open>Content: {content}\<close> and a line break.
\<close>

definition doc_text :: "document \<Rightarrow> string" where
  "doc_text doc =
     (let content = dict_get doc ''content'' [];
          title = dict_get doc ''title'' ''Untitled'';
          url = dict_get doc ''url'' []
      in ''Source: '' @ title @ (if url \<noteq> [] then '' ('' @ url @ '')'' else [])
           @ [CHR 0x0A] @ ''Content: '' @ content @ [CHR 0x0A])"

text \<open>
  The \<open>for doc in context_documents\<close> loop with its two accumulators; \<open>break\<close> returns
  what has been gathered.
\<close>

fun context_loop :: "document list \<Rightarrow> int \<Rightarrow> string list \<Rightarrow> int \<Rightarrow> string list" where
  "context_loop [] max_context_length context_parts current_length = context_parts"
| "context_loop (doc # docs) max_context_length context_parts current_length =
     (if current_length + len (doc_text doc) > max_context_length then context_parts
      else context_loop docs max_context_length (context_parts @ [doc_text doc])
             (current_length + len (doc_text doc)))"

definition context_parts_of :: "document list \<Rightarrow> int \<Rightarrow> string list" where
  "context_parts_of context_documents max_context_length =
     context_loop context_documents max_context_length [] 0"

section \<open>Chunker: runs that never return\<close>

lemma scan_back_no_terminal:
  "\<forall>i\<in>set is. 0 \<le> i \<and> i < len text \<Longrightarrow> \<forall>c\<in>set text. c \<notin> set ''.!?''
   \<Longrightarrow> scan_back text is e = Inr e"
proof (induction "is")
  case Nil
  then show ?case by simp
next
  case (Cons i "is")
  then have "0 \<le> i" "i < len text" by simp_all
  then have g: "py_getitem text i = Inr (text ! nat i)"
    by (simp add: py_getitem_def)
  from \<open>0 \<le> i\<close> \<open>i < len text\<close> have "text ! nat i \<in> set text"
    by (simp add: len_def)
  with Cons.prems(2) have "text ! nat i \<notin> set ''.!?''" by blast
  with g Cons show ?case by simp
qed

lemma find_end_no_terminal:
  assumes "0 \<le> start" "0 < cs" "\<forall>c\<in>set text. c \<notin> set ''.!?''"
  shows "find_end text start cs = Inr (start + cs)"
proof (cases "start + cs < len text")
  case True
  have "\<forall>i\<in>set (range_down (start + cs) (max (start + cs div 2) (start + cs - 100))).
          0 \<le> i \<and> i < len text"
    using True assms(1,2) by (auto simp: range_down_def)
  from scan_back_no_terminal [OF this assms(3)] True show ?thesis
    by (simp add: find_end_def)
next
  case False
  then show ?thesis by (simp add: find_end_def)
qed

lemma chunk_loop_stuck:
  assumes "chunk_loop text cs ov start chunks = Some y"
  shows "\<not> (0 < cs \<and> cs < len text \<and> ov = cs \<and> start = 0 \<and> (\<forall>c\<in>set text. c \<notin> set ''.!?''))"
  using assms
proof (induction rule: chunk_loop.raw_induct [rotated 1, consumes 1])
  case (1 f t cs ov start chunks y)
  show ?case
  proof
    assume a: "0 < cs \<and> cs < len t \<and> ov = cs \<and> start = 0 \<and> (\<forall>c\<in>set t. c \<notin> set ''.!?'')"
    then have fe: "find_end t start cs = Inr cs"
      using find_end_no_terminal [of 0 cs t] by simp
    from 1(2) a fe obtain chunks' where "f t cs ov start chunks' = Some y"
      by (simp split: if_splits)
    from 1(1) [OF this] a show False by blast
  qed
qed

lemma chunk_text_diverges:
  assumes "0 < cs" "cs < len text" "\<forall>c\<in>set text. c \<notin> set ''.!?''"
  shows "chunk_text text cs cs = None"
proof (cases "chunk_text text cs cs")
  case None
  then show ?thesis .
next
  case (Some y)
  with assms have "chunk_loop text cs cs 0 [] = Some y"
    by (simp add: chunk_text_def)
  from chunk_loop_stuck [OF this] assms show ?thesis by blast
qed

text \<open>
  C2 (the chunker terminates for every text, every positive chunk size and every
  overlap). The loop has no clamp on \<open>overlap\<close>: with \<open>overlap = chunk_size\<close> and a text
  longer than one window that holds no sentence end, every pass cuts at
  \<open>start + chunk_size\<close> and steps back to the same \<open>start\<close>, so the call never returns.
  Here the text is four letters and both parameters are 2.
\<close>

theorem chunk_text_overlap_eq_size_diverges: "chunk_text ''aaaa'' 2 2 = None"
  by (rule chunk_text_diverges) (simp_all add: len_def)

text \<open>
  An overlap below the chunk size does not help when a sentence end pulls the cut back:
  here the cut is 7, the next start is \<open>-1\<close>, and from there the cut is 7 again.
\<close>

lemma chunk_loop_stuck_below_size:
  assumes "chunk_loop t cs ov start chunks = Some y"
  shows "\<not> (t = ''aaaaaa.aaaaaaaaaaaaaaaa'' \<and> cs = 10 \<and> ov = 8 \<and> (start = 0 \<or> start = - 1))"
  using assms
proof (induction rule: chunk_loop.raw_induct [rotated 1, consumes 1])
  case (1 f t cs ov start chunks y)
  show ?case
  proof
    assume a: "t = ''aaaaaa.aaaaaaaaaaaaaaaa'' \<and> cs = 10 \<and> ov = 8 \<and> (start = 0 \<or> start = - 1)"
    have fe0: "find_end ''aaaaaa.aaaaaaaaaaaaaaaa'' 0 10 = Inr 7" by code_simp
    have fe1: "find_end ''aaaaaa.aaaaaaaaaaaaaaaa'' (- 1) 10 = Inr 7" by code_simp
    have l: "len ''aaaaaa.aaaaaaaaaaaaaaaa'' = 23" by (simp add: len_def)
    from a 1(2) fe0 fe1 l obtain chunks' where "f t cs ov (- 1) chunks' = Some y"
      by (auto split: if_splits)
    from 1(1) [OF this] a show False by blast
  qed
qed

lemma chunk_text_overlap_below_size_diverges:
  "chunk_text ''aaaaaa.aaaaaaaaaaaaaaaa'' 10 8 = None"
proof (cases "chunk_text ''aaaaaa.aaaaaaaaaaaaaaaa'' 10 8")
  case None
  then show ?thesis .
next
  case (Some y)
  then have "chunk_loop ''aaaaaa.aaaaaaaaaaaaaaaa'' 10 8 0 [] = Some y"
    by (simp add: chunk_text_def len_def)
  from chunk_loop_stuck_below_size [OF this] show ?thesis by blast
qed

section \<open>Chunker: what the returned chunks satisfy\<close>

lemma strip_idem: "strip (strip s) = strip s"
proof -
  define a where "a = dropWhile is_space s"
  define b where "b = rev (dropWhile is_space (rev a))"
  have sb: "strip s = b" by (simp add: strip_def a_def b_def)
  have ab: "a = b @ rev (takeWhile is_space (rev a))"
    unfolding b_def by (metis rev_append rev_rev_ident takeWhile_dropWhile_id)
  have front: "dropWhile is_space b = b"
  proof (cases b)
    case Nil
    then show ?thesis by simp
  next
    case (Cons x xs)
    with ab have "a = x # (xs @ rev (takeWhile is_space (rev a)))" by simp
    then have "a \<noteq> []" and "hd a = x" by (metis list.distinct(1), metis list.sel(1))
    then have "\<not> is_space x"
      using hd_dropWhile [of is_space s] by (simp add: a_def)
    with Cons show ?thesis by simp
  qed
  have tail: "dropWhile is_space (rev b) = rev b"
    by (simp add: b_def)
  show ?thesis
    unfolding sb by (simp add: strip_def front tail)
qed

lemma length_strip_le: "length (strip s) \<le> length s"
proof -
  have "length (strip s) \<le> length (dropWhile is_space s)"
    using length_dropWhile_le [of is_space "rev (dropWhile is_space s)"]
    by (simp add: strip_def)
  also have "\<dots> \<le> length s" by (rule length_dropWhile_le)
  finally show ?thesis .
qed

lemma length_py_slice_le:
  "start \<le> end \<Longrightarrow> len (py_slice xs start end) \<le> end - start"
  by (auto simp: py_slice_def slice_bound_def len_def Let_def min_def max_def)

lemma scan_back_result:
  "scan_back t is e = Inr r \<Longrightarrow> r = e \<or> (\<exists>i\<in>set is. r = i + 1)"
  by (induction "is") (auto split: sum.splits if_splits)

lemma find_end_bounds:
  assumes "find_end t start cs = Inr en" "0 < cs"
  shows "start \<le> en \<and> en \<le> start + cs + 1"
proof (cases "start + cs < len t")
  case True
  with assms(1) have "scan_back t (range_down (start + cs)
      (max (start + cs div 2) (start + cs - 100))) (start + cs) = Inr en"
    by (simp add: find_end_def Let_def)
  from scan_back_result [OF this]
  have "en = start + cs \<or>
        (max (start + cs div 2) (start + cs - 100) < en - 1 \<and> en - 1 \<le> start + cs)"
    by (auto simp: range_down_def)
  with assms(2) show ?thesis by auto
next
  case False
  with assms show ?thesis by (simp add: find_end_def Let_def)
qed

lemma find_end_nonpositive:
  assumes "cs \<le> 0"
  shows "find_end t start cs = Inr (start + cs)"
proof -
  have "cs \<le> cs div 2" using assms by presburger
  then have "range_down (start + cs) (max (start + cs div 2) (start + cs - 100)) = []"
    by (simp add: range_down_def)
  then show ?thesis by (simp add: find_end_def Let_def)
qed

lemma chunk_loop_all:
  assumes "chunk_loop t cs ov start chunks = Some y"
  shows "(\<forall>st en. find_end t st cs = Inr en \<longrightarrow> strip (py_slice t st en) \<noteq> [] \<longrightarrow>
             Q t cs (strip (py_slice t st en))) \<longrightarrow>
         (\<forall>c\<in>set chunks. Q t cs c) \<longrightarrow>
         (\<forall>r. y = Inr r \<longrightarrow> (\<forall>c\<in>set r. Q t cs c))"
  using assms
proof (induction rule: chunk_loop.raw_induct [rotated 1, consumes 1])
  case (1 f t cs ov start chunks y)
  show ?case
  proof (intro impI allI)
    fix r
    assume step: "\<forall>st en. find_end t st cs = Inr en \<longrightarrow> strip (py_slice t st en) \<noteq> [] \<longrightarrow>
             Q t cs (strip (py_slice t st en))"
      and acc: "\<forall>c\<in>set chunks. Q t cs c" and y: "y = Inr r"
    show "\<forall>c\<in>set r. Q t cs c"
    proof (cases "start < len t")
      case False
      with 1(2) y acc show ?thesis by simp
    next
      case True
      show ?thesis
      proof (cases "find_end t start cs")
        case (Inl e)
        with 1(2) True y show ?thesis by simp
      next
        case (Inr en)
        define chunks' where "chunks' = (if strip (py_slice t start en) \<noteq> []
            then chunks @ [strip (py_slice t start en)] else chunks)"
        have acc': "\<forall>c\<in>set chunks'. Q t cs c"
          using acc step Inr by (auto simp: chunks'_def)
        show ?thesis
        proof (cases "len t \<le> en - ov")
          case True
          with 1(2) \<open>start < len t\<close> Inr y have "r = chunks'"
            by (simp add: chunks'_def)
          with acc' show ?thesis by simp
        next
          case False
          with 1(2) \<open>start < len t\<close> Inr have "f t cs ov (en - ov) chunks' = Some y"
            by (simp add: chunks'_def)
          from 1(1) [OF this] step acc' y show ?thesis by blast
        qed
      qed
    qed
  qed
qed

lemma chunk_loop_no_error:
  assumes "chunk_loop t cs ov start chunks = Some y"
  shows "cs \<le> 0 \<longrightarrow> (\<forall>e. y \<noteq> Inl e)"
  using assms
proof (induction rule: chunk_loop.raw_induct [rotated 1, consumes 1])
  case (1 f t cs ov start chunks y)
  show ?case
  proof
    assume cs: "cs \<le> 0"
    show "\<forall>e. y \<noteq> Inl e"
    proof (cases "start < len t")
      case False
      with 1(2) show ?thesis by auto
    next
      case True
      note fe = find_end_nonpositive [OF cs, of t start]
      show ?thesis
      proof (cases "len t \<le> start + cs - ov")
        case True
        with 1(2) \<open>start < len t\<close> fe show ?thesis by (auto split: if_splits)
      next
        case False
        with 1(2) \<open>start < len t\<close> fe obtain chunks' where
          "f t cs ov (start + cs - ov) chunks' = Some y"
          by (simp split: if_splits)
        from 1(1) [OF this] cs show ?thesis by blast
      qed
    qed
  qed
qed

text \<open>
  C5, as amended. A text no longer than \<open>chunk_size\<close> is returned as the single chunk,
  untouched. For a longer text every returned chunk is a trimmed window that is not
  empty: trimming it again changes nothing.
\<close>

theorem chunk_text_chunks_nonempty:
  assumes "chunk_text t cs ov = Some (Inr chunks)"
  shows "(len t \<le> cs \<longrightarrow> chunks = [t]) \<and>
         (cs < len t \<longrightarrow> (\<forall>c\<in>set chunks. strip c = c \<and> strip c \<noteq> []))"
proof (cases "len t \<le> cs")
  case True
  with assms show ?thesis by (simp add: chunk_text_def)
next
  case False
  with assms have l: "chunk_loop t cs ov 0 [] = Some (Inr chunks)"
    by (simp add: chunk_text_def)
  have "\<forall>c\<in>set chunks. strip c = c \<and> strip c \<noteq> []"
    using chunk_loop_all [OF l, of "\<lambda>t cs c. strip c = c \<and> strip c \<noteq> []"]
    by (auto simp: strip_idem)
  with False show ?thesis by auto
qed

theorem chunk_text_chunks_nonempty_witness:
  "chunk_text ''Hello. World is big! Yes it is. And more text here'' 10 2 =
     Some (Inr [''Hello. Wor'', ''orld is bi'', ''big! Yes i'', ''it is.'',
                ''s. And mor'', ''ore text h'', ''here'']) \<and>
   10 < len ''Hello. World is big! Yes it is. And more text here'' \<and>
   strip ''it is.'' = ''it is.'' \<and> strip ''it is.'' \<noteq> [] \<and>
   chunk_text ''  '' 10 2 = Some (Inr [''  '']) \<and> len ''  '' \<le> 10"
proof -
  have a: "chunk_text ''Hello. World is big! Yes it is. And more text here'' 10 2 =
     Some (Inr [''Hello. Wor'', ''orld is bi'', ''big! Yes i'', ''it is.'',
                ''s. And mor'', ''ore text h'', ''here''])"
    by code_simp
  have b: "chunk_text ''  '' 10 2 = Some (Inr [''  ''])"
    by code_simp
  show ?thesis
    using chunk_text_chunks_nonempty [OF a] chunk_text_chunks_nonempty [OF b] a b
    by (simp add: len_def)
qed

text \<open>
  The claim as stated fails on the empty string: the result is the one-element list
  holding the empty string, which is empty after trimming.
\<close>

theorem chunk_text_empty_counterexample:
  "chunk_text [] 10 2 = Some (Inr [[]]) \<and> strip [] = []"
  by code_simp

text \<open>
  C6, as amended. \<open>chunk_text\<close> does not validate \<open>chunk_size\<close>. With
  \<open>chunk_size \<le> 0\<close> the call never raises: the look-back range is empty, so no
  character is read. A text no longer than \<open>chunk_size\<close> (the empty text at size 0) comes
  back as the single chunk.
\<close>

theorem chunk_text_nonpositive_size:
  assumes "cs \<le> 0"
  shows "(\<forall>e. chunk_text t cs ov \<noteq> Some (Inl e)) \<and>
         (len t \<le> cs \<longrightarrow> chunk_text t cs ov = Some (Inr [t]))"
proof (cases "len t \<le> cs")
  case True
  then show ?thesis by (simp add: chunk_text_def)
next
  case False
  have "\<forall>e. chunk_loop t cs ov 0 [] \<noteq> Some (Inl e)"
    using chunk_loop_no_error [of t cs ov 0 "[]"] assms by blast
  with False show ?thesis by (simp add: chunk_text_def)
qed

theorem chunk_text_nonpositive_size_witness:
  "(0::int) \<le> 0 \<and> len ([] :: string) \<le> 0 \<and> chunk_text [] 0 200 = Some (Inr [[]]) \<and>
   chunk_text [] 0 200 \<noteq> Some (Inl IndexError) \<and>
   (- 1 :: int) \<le> 0 \<and> chunk_text ''abc'' (- 1) (- 5) \<noteq> Some (Inl IndexError)"
  using chunk_text_nonpositive_size [of 0 "[]" 200]
        chunk_text_nonpositive_size [of "- 1" "''abc''" "- 5"]
  by (simp add: len_def)

text \<open>
  The claim as stated fails: with \<open>chunk_size = -1\<close> and \<open>overlap = -5\<close> the call returns
  a chunk list.
\<close>

theorem chunk_text_negative_size_counterexample:
  "chunk_text ''abc'' (- 1) (- 5) = Some (Inr [''ab''])"
  by code_simp

text \<open>
  C7 (chunk bound). For \<open>chunk_size = S > 0\<close> every returned chunk has at most \<open>S + 1\<close>
  characters, hence at most \<open>S + 100\<close>: the cut is at most one character past the
  window, when the character at the window's end closes a sentence.
\<close>

theorem chunk_text_chunk_bound:
  assumes "0 < S" "chunk_text t S ov = Some (Inr chunks)" "c \<in> set chunks"
  shows "len c \<le> S + 1 \<and> len c \<le> S + 100"
proof (cases "len t \<le> S")
  case True
  with assms show ?thesis by (auto simp: chunk_text_def)
next
  case False
  with assms have l: "chunk_loop t S ov 0 [] = Some (Inr chunks)"
    by (simp add: chunk_text_def)
  have step: "\<forall>st en. find_end t st S = Inr en \<longrightarrow> strip (py_slice t st en) \<noteq> [] \<longrightarrow>
             len (strip (py_slice t st en)) \<le> S + 1"
  proof (intro allI impI)
    fix st en
    assume fe: "find_end t st S = Inr en"
    from find_end_bounds [OF fe assms(1)] have b: "st \<le> en" "en \<le> st + S + 1" by simp_all
    have "len (strip (py_slice t st en)) \<le> len (py_slice t st en)"
      using length_strip_le [of "py_slice t st en"] by (simp add: len_def)
    also have "\<dots> \<le> en - st" using b(1) by (rule length_py_slice_le)
    finally show "len (strip (py_slice t st en)) \<le> S + 1" using b(2) by simp
  qed
  have "\<forall>c\<in>set chunks. len c \<le> S + 1"
    using chunk_loop_all [OF l, of "\<lambda>t cs c. len c \<le> cs + 1"] step by simp
  with assms(3) show ?thesis by auto
qed

theorem chunk_text_chunk_bound_witness:
  "(0::int) < 10 \<and>
   chunk_text ''aaaaaaaaaa.bbbbbbbbbbbb'' 10 2 =
     Some (Inr [''aaaaaaaaaa.'', ''a.bbbbbbbb'', ''bbbbbb'']) \<and>
   ''aaaaaaaaaa.'' \<in> set [''aaaaaaaaaa.'', ''a.bbbbbbbb'', ''bbbbbb''] \<and>
   len ''aaaaaaaaaa.'' = 10 + 1 \<and> len ''aaaaaaaaaa.'' \<le> 10 + 100"
proof -
  have a: "chunk_text ''aaaaaaaaaa.bbbbbbbbbbbb'' 10 2 =
     Some (Inr [''aaaaaaaaaa.'', ''a.bbbbbbbb'', ''bbbbbb''])"
    by code_simp
  have p: "(0::int) < 10" by simp
  have m: "''aaaaaaaaaa.'' \<in> set [''aaaaaaaaaa.'', ''a.bbbbbbbb'', ''bbbbbb'']" by simp
  show ?thesis
    using chunk_text_chunk_bound [OF p a m] a by (simp add: len_def)
qed

section \<open>Chunker: runs that return\<close>

text \<open>
  With \<open>overlap\<close> below both \<open>chunk_size\<close> and the least advance of the cut
  (\<open>max (chunk_size div 2) (chunk_size - 100) + 2\<close>), every pass moves \<open>start\<close> forward, no
  index leaves the text, and the call returns a chunk list. The defaults (1000, 200)
  are in that range.
\<close>

lemma scan_back_in_range:
  "\<forall>i\<in>set is. 0 \<le> i \<and> i < len t \<Longrightarrow> \<exists>r. scan_back t is e = Inr r"
proof (induction "is")
  case Nil
  then show ?case by simp
next
  case (Cons i "is")
  then have "py_getitem t i = Inr (t ! nat i)" by (simp add: py_getitem_def)
  with Cons show ?case by simp
qed

lemma find_end_progress:
  assumes "0 \<le> start" "0 < cs" "ov < cs" "ov < max (cs div 2) (cs - 100) + 2"
  shows "\<exists>en. find_end t start cs = Inr en \<and> start < en - ov"
proof (cases "start + cs < len t")
  case False
  with assms(3) show ?thesis by (simp add: find_end_def Let_def)
next
  case True
  define L where "L = max (start + cs div 2) (start + cs - 100)"
  have "\<forall>i\<in>set (range_down (start + cs) L). 0 \<le> i \<and> i < len t"
    using True assms(1,2) by (auto simp: range_down_def L_def)
  from scan_back_in_range [OF this] obtain en where
    en: "scan_back t (range_down (start + cs) L) (start + cs) = Inr en" by blast
  from scan_back_result [OF en] have "en = start + cs \<or> L + 2 \<le> en"
    by (auto simp: range_down_def)
  moreover have "L = start + max (cs div 2) (cs - 100)" by (simp add: L_def)
  ultimately have "start < en - ov" using assms(3,4) by auto
  moreover from en True have "find_end t start cs = Inr en"
    by (simp add: find_end_def Let_def L_def)
  ultimately show ?thesis by blast
qed

lemma chunk_loop_returns:
  assumes "0 < cs" "ov < cs" "ov < max (cs div 2) (cs - 100) + 2"
  shows "0 \<le> start \<Longrightarrow> \<exists>r. chunk_loop t cs ov start chunks = Some (Inr r)"
proof (induction "nat (len t - start)" arbitrary: start chunks rule: less_induct)
  case less
  show ?case
  proof (cases "start < len t")
    case False
    then show ?thesis by (subst chunk_loop.simps) simp
  next
    case True
    from find_end_progress [OF less.prems assms] obtain en where
      en: "find_end t start cs = Inr en" "start < en - ov" by blast
    show ?thesis
    proof (cases "len t \<le> en - ov")
      case True
      with \<open>start < len t\<close> en(1) show ?thesis by (subst chunk_loop.simps) simp
    next
      case False
      define chunks' where "chunks' = (if strip (py_slice t start en) \<noteq> []
            then chunks @ [strip (py_slice t start en)] else chunks)"
      have "nat (len t - (en - ov)) < nat (len t - start)"
        using en(2) False by simp
      moreover have "0 \<le> en - ov" using en(2) less.prems by simp
      ultimately obtain r where "chunk_loop t cs ov (en - ov) chunks' = Some (Inr r)"
        using less.hyps by blast
      with False \<open>start < len t\<close> en(1) show ?thesis
        by (subst chunk_loop.simps) (simp add: chunks'_def)
    qed
  qed
qed

lemma chunk_text_returns:
  assumes "0 < cs" "ov < cs" "ov < max (cs div 2) (cs - 100) + 2"
  shows "\<exists>chunks. chunk_text t cs ov = Some (Inr chunks)"
  using chunk_loop_returns [OF assms, of 0 t "[]"] by (simp add: chunk_text_def)

lemma chunk_text_default_returns: "\<exists>chunks. chunk_text t 1000 200 = Some (Inr chunks)"
  by (rule chunk_text_returns) simp_all

section \<open>Float32 rounding\<close>

text \<open>
  The exponent search ends between \<open>-126\<close> and \<open>127\<close> at the binade of its argument, and
  rounding to float32 is monotone on the non-negative reals.
\<close>

lemma exp_from_ge: "e \<le> f32_exponent_from x e"
  by (induction x e rule: f32_exponent_from.induct)
     (subst f32_exponent_from.simps, auto)

lemma exp_from_le: "e \<le> 127 \<Longrightarrow> f32_exponent_from x e \<le> 127"
  by (induction x e rule: f32_exponent_from.induct)
     (subst f32_exponent_from.simps, auto)

lemma exp_from_upper:
  "f32_exponent_from x e < 127 \<Longrightarrow> x < 2 powi (f32_exponent_from x e + 1)"
proof (induction x e rule: f32_exponent_from.induct)
  case (1 x e)
  show ?case
  proof (cases "e < 127 \<and> 2 powi (e + 1) \<le> x")
    case True
    then have eq: "f32_exponent_from x e = f32_exponent_from x (e + 1)"
      by (subst f32_exponent_from.simps) auto
    with 1 True show ?thesis by simp
  next
    case False
    then have eq: "f32_exponent_from x e = e"
      by (subst f32_exponent_from.simps) auto
    with 1(2) False show ?thesis by auto
  qed
qed

lemma exp_from_lower:
  "e < f32_exponent_from x e \<Longrightarrow> 2 powi (f32_exponent_from x e) \<le> x"
proof (induction x e rule: f32_exponent_from.induct)
  case (1 x e)
  show ?case
  proof (cases "e < 127 \<and> 2 powi (e + 1) \<le> x")
    case True
    then have eq: "f32_exponent_from x e = f32_exponent_from x (e + 1)"
      by (subst f32_exponent_from.simps) auto
    show ?thesis
    proof (cases "e + 1 < f32_exponent_from x (e + 1)")
      case True
      with 1(1) \<open>e < 127 \<and> 2 powi (e + 1) \<le> x\<close> eq show ?thesis by simp
    next
      case False
      with exp_from_ge [of "e + 1" x] have "f32_exponent_from x (e + 1) = e + 1" by simp
      with eq True show ?thesis by simp
    qed
  next
    case False
    then have "f32_exponent_from x e = e"
      by (subst f32_exponent_from.simps) auto
    with 1(2) show ?thesis by simp
  qed
qed


lemma f32_exponent_range: "- 126 \<le> f32_exponent x" "f32_exponent x \<le> 127"
  using exp_from_ge [of "- 126" "\<bar>x\<bar>"] exp_from_le [of "- 126" "\<bar>x\<bar>"]
  by (simp_all add: f32_exponent_def)

lemma f32_exponent_eq:
  assumes "- 126 \<le> e" "e \<le> 127" "- 126 < e \<longrightarrow> 2 powi e \<le> \<bar>x\<bar>" "e < 127 \<longrightarrow> \<bar>x\<bar> < 2 powi (e + 1)"
  shows "f32_exponent x = e"
proof -
  define r where "r = f32_exponent x"
  have r: "- 126 \<le> r" "r \<le> 127" using f32_exponent_range [of x] by (simp_all add: r_def)
  have up: "r < 127 \<Longrightarrow> \<bar>x\<bar> < 2 powi (r + 1)"
    using exp_from_upper [of "\<bar>x\<bar>" "- 126"] by (simp add: r_def f32_exponent_def)
  have lo: "- 126 < r \<Longrightarrow> 2 powi r \<le> \<bar>x\<bar>"
    using exp_from_lower [of "- 126" "\<bar>x\<bar>"] by (simp add: r_def f32_exponent_def)
  have "\<not> r < e"
  proof
    assume "r < e"
    with assms(2) have "r < 127" by simp
    from up [OF this] have "\<bar>x\<bar> < 2 powi (r + 1)" .
    also have "(2::real) powi (r + 1) \<le> 2 powi e"
      using \<open>r < e\<close> by (intro power_int_increasing) auto
    finally have "\<bar>x\<bar> < 2 powi e" .
    moreover from \<open>r < e\<close> r(1) assms(3) have "2 powi e \<le> \<bar>x\<bar>" by simp
    ultimately show False by simp
  qed
  moreover have "\<not> e < r"
  proof
    assume "e < r"
    with assms(1) have "- 126 < r" by simp
    from lo [OF this] have "2 powi r \<le> \<bar>x\<bar>" .
    moreover from \<open>e < r\<close> r(2) assms(4) have "\<bar>x\<bar> < 2 powi (e + 1)" by simp
    moreover have "(2::real) powi (e + 1) \<le> 2 powi r"
      using \<open>e < r\<close> by (intro power_int_increasing) auto
    ultimately show False by simp
  qed
  ultimately show ?thesis by (simp add: r_def)
qed


lemma round_half_even_of_int: "round_half_even (of_int n) = n"
  by (simp add: round_half_even_def)




lemma f32_ulp_pos: "0 < f32_ulp x"
  by (simp add: f32_ulp_def)









lemma f32_round_exact:
  assumes "x = of_int m * 2 powi (f32_exponent x - 23)"
  shows "f32_round x = x"
proof -
  have "x / f32_ulp x = of_int m"
    using assms f32_ulp_pos [of x] by (simp add: f32_ulp_def field_simps)
  then have "round_half_even (x / f32_ulp x) = m" by (simp add: round_half_even_of_int)
  with assms show ?thesis by (simp add: f32_round_def f32_ulp_def)
qed

lemma f32_exponent_1: "f32_exponent 1 = 0"
  by (rule f32_exponent_eq) simp_all

lemma f32_round_1: "f32_round 1 = 1"
proof (rule f32_round_exact [where m = "2 ^ 23"])
  show "1 = real_of_int (2 ^ 23) * 2 powi (f32_exponent 1 - 23)"
    by (simp add: f32_exponent_1 power_int_minus)
qed






text \<open>
  Rounding a given real: name its exponent, and the rest is arithmetic.
\<close>

lemma f32_round_eval:
  assumes "- 126 \<le> e" "e \<le> 127" "- 126 < e \<longrightarrow> 2 powi e \<le> \<bar>x\<bar>"
    "e < 127 \<longrightarrow> \<bar>x\<bar> < 2 powi (e + 1)"
  shows "f32_round x = of_int (round_half_even (x / 2 powi (e - 23))) * 2 powi (e - 23)"
  using f32_exponent_eq [OF assms] by (simp add: f32_round_def f32_ulp_def)

lemma similarity_0: "similarity 0 = 1"
  by (simp add: similarity_def f32_round_1)

lemma f32_round_third: "f32_round (1 / 3) = 11184811 / 33554432"
  by (subst f32_round_eval [of "- 2"]) (simp_all add: round_half_even_def power_int_minus)

lemma f32_round_3: "f32_round 3 = 3"
  by (subst f32_round_eval [of 1]) (simp_all add: round_half_even_def power_int_minus)

lemma similarity_2: "similarity 2 = 11184811 / 33554432"
  by (simp add: similarity_def f32_round_3 f32_round_third)







lemma small_below_FLT_MAX: "0 < FLT_MAX" "2 < FLT_MAX"
  by (simp_all add: FLT_MAX_def)

section \<open>Vector index: adding\<close>

lemma create_index_nonempty:
  "rows e \<noteq> [] \<Longrightarrow> create_index s e docs =
     (True, s\<lparr>dimension := Some (ncols e),
              index := Some \<lparr>ix_d = ncols e, ix_xb = rows e\<rparr>, documents := docs\<rparr>)"
  by (simp add: create_index_def len_def index_add_def IndexFlatL2_new_def)

lemma create_index_empty: "rows e = [] \<Longrightarrow> create_index s e docs = (False, s)"
  by (simp add: create_index_def len_def)

lemma add_documents_False_unchanged:
  "fst (add_documents s e docs) = False \<Longrightarrow> snd (add_documents s e docs) = s"
  by (cases "rows e = []")
     (auto simp: add_documents_def create_index_nonempty create_index_empty
           split: option.splits sum.splits)

text \<open>
  C3, as amended. \<open>add_documents\<close> never compares the number of vectors with the number
  of chunks. A mismatched batch that the index accepts (not empty on a store without
  index, of the index's width otherwise) is stored whole: all its vectors and all its
  chunks, with return value \<open>True\<close>. Whenever the call does return \<open>False\<close>, the store
  is unchanged.
\<close>

theorem add_documents_mismatched_counts:
  assumes "length (rows e) \<noteq> length docs"
  shows "(index s = None \<and> rows e \<noteq> [] \<longrightarrow>
            add_documents s e docs =
              (True, s\<lparr>dimension := Some (ncols e),
                       index := Some \<lparr>ix_d = ncols e, ix_xb = rows e\<rparr>, documents := docs\<rparr>)) \<and>
         (\<forall>ix. index s = Some ix \<and> ncols e = ix_d ix \<longrightarrow>
            add_documents s e docs =
              (True, s\<lparr>index := Some (ix\<lparr>ix_xb := ix_xb ix @ rows e\<rparr>),
                       documents := documents s @ docs\<rparr>)) \<and>
         (fst (add_documents s e docs) = False \<longrightarrow> snd (add_documents s e docs) = s)"
  using add_documents_False_unchanged [of s e docs]
  by (auto simp: add_documents_def create_index_nonempty index_add_def)

theorem add_documents_mismatched_counts_witness:
  "length (rows \<lparr>ncols = 2, rows = [[1, 0]]\<rparr>) \<noteq> length [Map.empty, Map.empty :: document] \<and>
   index VectorStore_init = None \<and> rows \<lparr>ncols = 2, rows = [[1, 0]]\<rparr> \<noteq> [] \<and>
   add_documents VectorStore_init \<lparr>ncols = 2, rows = [[1, 0]]\<rparr> [Map.empty, Map.empty] =
     (True, \<lparr>index = Some \<lparr>ix_d = 2, ix_xb = [[1, 0]]\<rparr>,
             documents = [Map.empty, Map.empty], dimension = Some 2\<rparr>) \<and>
   add_documents \<lparr>index = Some \<lparr>ix_d = 2, ix_xb = [[1, 0]]\<rparr>,
                   documents = [Map.empty], dimension = Some 2\<rparr>
     \<lparr>ncols = 2, rows = [[0, 1], [1, 1]]\<rparr> [Map.empty] =
     (True, \<lparr>index = Some \<lparr>ix_d = 2, ix_xb = [[1, 0], [0, 1], [1, 1]]\<rparr>,
             documents = [Map.empty, Map.empty], dimension = Some 2\<rparr>) \<and>
   fst (add_documents \<lparr>index = Some \<lparr>ix_d = 2, ix_xb = [[1, 0]]\<rparr>,
                   documents = [Map.empty], dimension = Some 2\<rparr>
     \<lparr>ncols = 3, rows = [[0, 1, 0]]\<rparr> []) = False \<and>
   snd (add_documents \<lparr>index = Some \<lparr>ix_d = 2, ix_xb = [[1, 0]]\<rparr>,
                   documents = [Map.empty], dimension = Some 2\<rparr>
     \<lparr>ncols = 3, rows = [[0, 1, 0]]\<rparr> []) =
     \<lparr>index = Some \<lparr>ix_d = 2, ix_xb = [[1, 0]]\<rparr>, documents = [Map.empty], dimension = Some 2\<rparr>"
proof -
  have f: "fst (add_documents \<lparr>index = Some \<lparr>ix_d = 2, ix_xb = [[1, 0]]\<rparr>,
                   documents = [Map.empty], dimension = Some 2\<rparr>
     \<lparr>ncols = 3, rows = [[0, 1, 0]]\<rparr> []) = False"
    by (simp add: add_documents_def index_add_def)
  show ?thesis
    using add_documents_mismatched_counts
            [of "\<lparr>ncols = 2, rows = [[1, 0]]\<rparr>" "[Map.empty, Map.empty]" VectorStore_init]
          add_documents_mismatched_counts
            [of "\<lparr>ncols = 2, rows = [[0, 1], [1, 1]]\<rparr>" "[Map.empty]"
                "\<lparr>index = Some \<lparr>ix_d = 2, ix_xb = [[1, 0]]\<rparr>,
                  documents = [Map.empty], dimension = Some 2\<rparr>"]
          add_documents_mismatched_counts
            [of "\<lparr>ncols = 3, rows = [[0, 1, 0]]\<rparr>" "[]"
                "\<lparr>index = Some \<lparr>ix_d = 2, ix_xb = [[1, 0]]\<rparr>,
                  documents = [Map.empty], dimension = Some 2\<rparr>"]
          f
    by (simp add: VectorStore_init_def)
qed

text \<open>
  The claim as stated fails: one vector with two chunks is accepted by a fresh store,
  and the document count goes from 0 to 2.
\<close>

theorem add_mismatched_counterexample:
  "fst (add_documents VectorStore_init \<lparr>ncols = 2, rows = [[1, 0]]\<rparr> [Map.empty, Map.empty]) = True \<and>
   num_documents (get_stats VectorStore_init) = 0 \<and>
   num_documents (get_stats (snd (add_documents VectorStore_init \<lparr>ncols = 2, rows = [[1, 0]]\<rparr>
      [Map.empty, Map.empty]))) = 2"
  by (simp add: add_documents_def create_index_nonempty VectorStore_init_def get_stats_def)

text \<open>
  C10 (empty batch on a store without index). The call returns \<open>False\<close> and the store is
  the one it was: no dimension, no documents, no index.
\<close>

theorem add_empty_batch_unbound:
  "index s = None \<Longrightarrow> rows embeddings = [] \<Longrightarrow> add_documents s embeddings docs = (False, s)"
  by (simp add: add_documents_def create_index_empty)

theorem add_empty_batch_unbound_witness:
  "index VectorStore_init = None \<and> rows \<lparr>ncols = 0, rows = []\<rparr> = [] \<and>
   add_documents VectorStore_init \<lparr>ncols = 0, rows = []\<rparr> [] = (False, VectorStore_init) \<and>
   get_stats (snd (add_documents VectorStore_init \<lparr>ncols = 0, rows = []\<rparr> [])) =
     \<lparr>num_documents = 0, stats_dimension = None, has_index = False, index_size = 0\<rparr>"
  using add_empty_batch_unbound [of VectorStore_init "\<lparr>ncols = 0, rows = []\<rparr>" "[]"]
  by (simp add: VectorStore_init_def get_stats_def)

section \<open>Vector index: searching and snapshots\<close>

text \<open>
  C4, as amended. On a store with no index or no chunks, \<open>search\<close> does not fail: the
  guard returns the empty list as an ordinary value, the same value a search without
  hits returns.
\<close>

theorem search_empty_store:
  "index s = None \<or> documents s = [] \<Longrightarrow>
   search_try l2sqr s q k = Inr [] \<and> search l2sqr s q k = []"
  by (auto simp: search_def search_try_def len_def split: option.splits)

theorem search_empty_store_witness:
  "(index \<lparr>index = Some \<lparr>ix_d = 2, ix_xb = [[1, 0]]\<rparr>, documents = [], dimension = Some 2\<rparr> = None \<or>
    documents \<lparr>index = Some \<lparr>ix_d = 2, ix_xb = [[1, 0]]\<rparr>, documents = [], dimension = Some 2\<rparr> = []) \<and>
   search_try (\<lambda>x y. Some (sum_list (map (\<lambda>(a, b). (a - b)\<^sup>2) (zip x y))))
     \<lparr>index = Some \<lparr>ix_d = 2, ix_xb = [[1, 0]]\<rparr>, documents = [], dimension = Some 2\<rparr>
     [1, 0] 5 = Inr [] \<and>
   search (\<lambda>x y. Some (sum_list (map (\<lambda>(a, b). (a - b)\<^sup>2) (zip x y))))
     \<lparr>index = Some \<lparr>ix_d = 2, ix_xb = [[1, 0]]\<rparr>, documents = [], dimension = Some 2\<rparr>
     [1, 0] 5 = []"
  using search_empty_store
    [of "\<lparr>index = Some \<lparr>ix_d = 2, ix_xb = [[1, 0]]\<rparr>, documents = [], dimension = Some 2\<rparr>"
        "(\<lambda>x y. Some (sum_list (map (\<lambda>(a, b). (a - b)\<^sup>2) (zip x y))))" "[1, 0]" 5]
  by simp

text \<open>
  The claim as stated fails on the fresh store: the body of \<open>search\<close> returns normally
  with the empty list.
\<close>

theorem search_empty_store_counterexample:
  "search_try (\<lambda>x y. None) VectorStore_init [1, 0] 5 = Inr [] \<and>
   search (\<lambda>x y. None) VectorStore_init [1, 0] 5 = []"
  by (simp add: search_def search_try_def VectorStore_init_def)

text \<open>
  C1 (snapshot round trip). Provided FAISS reads back the index it wrote, saving a store
  that has an index and loading the saved data into any store object succeeds and gives
  a store with the same \<open>get_stats\<close> and the same \<open>search\<close> result for every query and
  every \<open>k\<close>.
\<close>

theorem snapshot_round_trip:
  assumes "index s = Some ix" and "read_index (write_index ix) = Some ix"
  shows "fst (load_from_session_state read_index t (save_to_session_state write_index s session)) = True \<and>
         get_stats (snd (load_from_session_state read_index t
                      (save_to_session_state write_index s session))) = get_stats s \<and>
         (\<forall>q k. search l2sqr (snd (load_from_session_state read_index t
                      (save_to_session_state write_index s session))) q k = search l2sqr s q k)"
proof -
  have "load_from_session_state read_index t (save_to_session_state write_index s session) =
          (True, t\<lparr>index := Some ix, documents := documents s, dimension := dimension s\<rparr>)"
    using assms by (simp add: load_from_session_state_def save_to_session_state_def)
  moreover have "t\<lparr>index := Some ix, documents := documents s, dimension := dimension s\<rparr> = s"
    using assms(1) by simp
  ultimately show ?thesis by simp
qed

theorem snapshot_round_trip_witness:
  "index \<lparr>index = Some \<lparr>ix_d = 2, ix_xb = [[1, 0], [0, 1]]\<rparr>,
          documents = [[''content'' \<mapsto> ''The sky is blue.''], [''content'' \<mapsto> ''Water is wet.'']],
          dimension = Some 2\<rparr> = Some \<lparr>ix_d = 2, ix_xb = [[1, 0], [0, 1]]\<rparr> \<and>
   (\<lambda>(n, vs). Some \<lparr>ix_d = n, ix_xb = vs\<rparr>)
     ((\<lambda>ix. (ix_d ix, ix_xb ix)) \<lparr>ix_d = 2, ix_xb = [[1, 0], [0, 1]]\<rparr>) =
     Some \<lparr>ix_d = 2, ix_xb = [[1, 0], [0, 1]]\<rparr> \<and>
   fst (load_from_session_state (\<lambda>(n, vs). Some \<lparr>ix_d = n, ix_xb = vs\<rparr>) VectorStore_init
         (save_to_session_state (\<lambda>ix. (ix_d ix, ix_xb ix))
            \<lparr>index = Some \<lparr>ix_d = 2, ix_xb = [[1, 0], [0, 1]]\<rparr>,
              documents = [[''content'' \<mapsto> ''The sky is blue.''], [''content'' \<mapsto> ''Water is wet.'']],
              dimension = Some 2\<rparr> Map.empty)) = True \<and>
   get_stats (snd (load_from_session_state (\<lambda>(n, vs). Some \<lparr>ix_d = n, ix_xb = vs\<rparr>) VectorStore_init
         (save_to_session_state (\<lambda>ix. (ix_d ix, ix_xb ix))
            \<lparr>index = Some \<lparr>ix_d = 2, ix_xb = [[1, 0], [0, 1]]\<rparr>,
              documents = [[''content'' \<mapsto> ''The sky is blue.''], [''content'' \<mapsto> ''Water is wet.'']],
              dimension = Some 2\<rparr> Map.empty))) =
     \<lparr>num_documents = 2, stats_dimension = Some 2, has_index = True, index_size = 2\<rparr> \<and>
   map snd (search (\<lambda>x y. Some (sum_list (map (\<lambda>(a, b). (a - b)\<^sup>2) (zip x y))))
      (snd (load_from_session_state (\<lambda>(n, vs). Some \<lparr>ix_d = n, ix_xb = vs\<rparr>)
         VectorStore_init
         (save_to_session_state (\<lambda>ix. (ix_d ix, ix_xb ix))
            \<lparr>index = Some \<lparr>ix_d = 2, ix_xb = [[1, 0], [0, 1]]\<rparr>,
              documents = [[''content'' \<mapsto> ''The sky is blue.''], [''content'' \<mapsto> ''Water is wet.'']],
              dimension = Some 2\<rparr> Map.empty))) [1, 0] 2) = [1, 11184811 / 33554432]"
proof -
  have s: "map snd (search (\<lambda>x y. Some (sum_list (map (\<lambda>(a, b). (a - b)\<^sup>2) (zip x y))))
              \<lparr>index = Some \<lparr>ix_d = 2, ix_xb = [[1, 0], [0, 1]]\<rparr>,
              documents = [[''content'' \<mapsto> ''The sky is blue.''], [''content'' \<mapsto> ''Water is wet.'']],
              dimension = Some 2\<rparr> [1, 0] 2) = [1, 11184811 / 33554432]"
    by (simp add: search_def search_try_def len_def index_search_def py_getitem_def
          small_below_FLT_MAX similarity_0 similarity_2)
  have g: "get_stats \<lparr>index = Some \<lparr>ix_d = 2, ix_xb = [[1, 0], [0, 1]]\<rparr>,
              documents = [[''content'' \<mapsto> ''The sky is blue.''], [''content'' \<mapsto> ''Water is wet.'']],
              dimension = Some 2\<rparr> =
     \<lparr>num_documents = 2, stats_dimension = Some 2, has_index = True, index_size = 2\<rparr>"
    by (simp add: get_stats_def ntotal_def)
  show ?thesis
    using snapshot_round_trip
            [where l2sqr = "(\<lambda>x y. Some (sum_list (map (\<lambda>(a, b). (a - b)\<^sup>2) (zip x y))))" and s = "\<lparr>index = Some \<lparr>ix_d = 2, ix_xb = [[1, 0], [0, 1]]\<rparr>,
                  documents = [[''content'' \<mapsto> ''The sky is blue.''], [''content'' \<mapsto> ''Water is wet.'']],
                  dimension = Some 2\<rparr>"
               and ix = "\<lparr>ix_d = 2, ix_xb = [[1, 0], [0, 1]]\<rparr>"
               and read_index = "\<lambda>(n, vs). Some \<lparr>ix_d = n, ix_xb = vs\<rparr>"
               and write_index = "\<lambda>ix. (ix_d ix, ix_xb ix)"
               and t = VectorStore_init and session = Map.empty] s g
    by simp
qed











section \<open>Retrieval assembler\<close>

lemma context_loop_prefix:
  "\<exists>n\<le>length docs.
      context_loop docs m parts cur = parts @ map doc_text (take n docs) \<and>
      (cur \<le> m \<longrightarrow> cur + sum_list (map (\<lambda>d. len (doc_text d)) (take n docs)) \<le> m) \<and>
      (m < cur \<longrightarrow> n = 0) \<and>
      (n < length docs \<longrightarrow>
         m < cur + sum_list (map (\<lambda>d. len (doc_text d)) (take n docs)) + len (doc_text (docs ! n)))"
proof (induction docs arbitrary: parts cur)
  case Nil
  then show ?case by simp
next
  case (Cons d ds)
  show ?case
  proof (cases "cur + len (doc_text d) > m")
    case True
    then have "context_loop (d # ds) m parts cur = parts" by simp
    with True show ?thesis by (intro exI [of _ 0]) simp
  next
    case False
    from Cons.IH [of "parts @ [doc_text d]" "cur + len (doc_text d)"]
    obtain n where n: "n \<le> length ds"
      "context_loop ds m (parts @ [doc_text d]) (cur + len (doc_text d)) =
         (parts @ [doc_text d]) @ map doc_text (take n ds)"
      "cur + len (doc_text d) \<le> m \<longrightarrow>
         cur + len (doc_text d) + sum_list (map (\<lambda>d. len (doc_text d)) (take n ds)) \<le> m"
      "n < length ds \<longrightarrow>
         m < cur + len (doc_text d) + sum_list (map (\<lambda>d. len (doc_text d)) (take n ds))
               + len (doc_text (ds ! n))"
      by blast
    have "0 \<le> len (doc_text d)" by (simp add: len_def)
    with False n show ?thesis
      by (intro exI [of _ "Suc n"]) (auto simp: len_def)
  qed
qed

text \<open>
  C9, as amended. The context loop keeps a prefix of the chunks in their order; the
  first chunk left out is the first whose text would take the running length over
  \<open>max_context_length\<close>; for a budget that is not negative the kept texts together stay
  within it, and a negative budget keeps nothing. The text of a chunk carries
  \<open> ({url})\<close> only when the url is not empty, and a missing title reads \<open>Untitled\<close>.
\<close>

theorem context_prefix_within_budget:
  "length (context_parts_of docs m) \<le> length docs \<and>
   context_parts_of docs m = map doc_text (take (length (context_parts_of docs m)) docs) \<and>
   (length (context_parts_of docs m) < length docs \<longrightarrow>
      m < sum_list (map len (context_parts_of docs m))
            + len (doc_text (docs ! length (context_parts_of docs m)))) \<and>
   (0 \<le> m \<longrightarrow> sum_list (map len (context_parts_of docs m)) \<le> m) \<and>
   (m < 0 \<longrightarrow> context_parts_of docs m = []) \<and>
   (\<forall>d\<in>set docs. doc_text d =
      ''Source: '' @ dict_get d ''title'' ''Untitled''
        @ (if dict_get d ''url'' [] = [] then [] else '' ('' @ dict_get d ''url'' [] @ '')'')
        @ [CHR 0x0A] @ ''Content: '' @ dict_get d ''content'' [] @ [CHR 0x0A])"
proof -
  from context_loop_prefix [of docs m "[]" 0]
  obtain n where n: "n \<le> length docs"
    "context_parts_of docs m = map doc_text (take n docs)"
    "0 \<le> m \<longrightarrow> sum_list (map (\<lambda>d. len (doc_text d)) (take n docs)) \<le> m"
    "m < 0 \<longrightarrow> n = 0"
    "n < length docs \<longrightarrow>
       m < sum_list (map (\<lambda>d. len (doc_text d)) (take n docs)) + len (doc_text (docs ! n))"
    by (auto simp: context_parts_of_def)
  have l: "length (context_parts_of docs m) = n"
    using n(1,2) by simp
  have s: "sum_list (map len (context_parts_of docs m)) =
           sum_list (map (\<lambda>d. len (doc_text d)) (take n docs))"
    using n(2) by (simp add: comp_def)
  have f: "\<forall>d\<in>set docs. doc_text d =
      ''Source: '' @ dict_get d ''title'' ''Untitled''
        @ (if dict_get d ''url'' [] = [] then [] else '' ('' @ dict_get d ''url'' [] @ '')'')
        @ [CHR 0x0A] @ ''Content: '' @ dict_get d ''content'' [] @ [CHR 0x0A]"
    by (simp add: doc_text_def)
  from n l s f show ?thesis by simp
qed

theorem context_prefix_within_budget_witness:
  "context_parts_of [[''title'' \<mapsto> ''T'', ''content'' \<mapsto> ''C'', ''url'' \<mapsto> ''u''],
                     [''title'' \<mapsto> ''T2'', ''content'' \<mapsto> ''C2'']] 40 =
     [''Source: T (u)'' @ [CHR 0x0A] @ ''Content: C'' @ [CHR 0x0A]] \<and>
   length (context_parts_of [[''title'' \<mapsto> ''T'', ''content'' \<mapsto> ''C'', ''url'' \<mapsto> ''u''],
                     [''title'' \<mapsto> ''T2'', ''content'' \<mapsto> ''C2'']] 40)
     < length [[''title'' \<mapsto> ''T'', ''content'' \<mapsto> ''C'', ''url'' \<mapsto> ''u''],
                     [''title'' \<mapsto> ''T2'', ''content'' \<mapsto> ''C2'']] \<and>
   (0::int) \<le> 40 \<and>
   sum_list (map len (context_parts_of [[''title'' \<mapsto> ''T'', ''content'' \<mapsto> ''C'', ''url'' \<mapsto> ''u''],
                     [''title'' \<mapsto> ''T2'', ''content'' \<mapsto> ''C2'']] 40)) \<le> 40 \<and>
   (- 1 :: int) < 0 \<and>
   context_parts_of [[''title'' \<mapsto> ''T'', ''content'' \<mapsto> ''C'', ''url'' \<mapsto> ''u'']] (- 1) = []"
proof -
  have e: "context_parts_of [[''title'' \<mapsto> ''T'', ''content'' \<mapsto> ''C'', ''url'' \<mapsto> ''u''],
                     [''title'' \<mapsto> ''T2'', ''content'' \<mapsto> ''C2'']] 40 =
     [''Source: T (u)'' @ [CHR 0x0A] @ ''Content: C'' @ [CHR 0x0A]]"
    by (simp add: context_parts_of_def doc_text_def dict_get_def len_def)
  show ?thesis
    using context_prefix_within_budget
            [of "[[''title'' \<mapsto> ''T'', ''content'' \<mapsto> ''C'', ''url'' \<mapsto> ''u''],
                  [''title'' \<mapsto> ''T2'', ''content'' \<mapsto> ''C2'']]" 40]
          context_prefix_within_budget
            [of "[[''title'' \<mapsto> ''T'', ''content'' \<mapsto> ''C'', ''url'' \<mapsto> ''u'']]" "- 1"]
          e
    by simp
qed

text \<open>
  The claim as stated fails on a chunk without url: its text has no parentheses.
\<close>

theorem context_format_counterexample:
  "context_parts_of [[''title'' \<mapsto> ''T'', ''content'' \<mapsto> ''C'']] 100 =
     [''Source: T'' @ [CHR 0x0A] @ ''Content: C'' @ [CHR 0x0A]] \<and>
   context_parts_of [[''title'' \<mapsto> ''T'', ''content'' \<mapsto> ''C'']] 100 \<noteq>
     [''Source: T ()'' @ [CHR 0x0A] @ ''Content: C'' @ [CHR 0x0A]]"
  by (simp add: context_parts_of_def doc_text_def dict_get_def len_def)

end
